theory Spec2Isabelle
  imports Main
begin

section \<open>watch-changes.js: the values of the page\<close>

text \<open>
  The module keeps its state in three places: the fields of each watcher object
  (\<open>this.hasChanges\<close>, \<open>this.isException\<close>, ...), the module-level object
  \<open>_defaults\<close>, and the page (\<open>window.onbeforeunload\<close> and the elements that show
  the status). Objects are shared by reference, so configuration objects live in a
  store indexed by addresses, and a watcher holds the address of its options.

  A function value is identified by a name; calling it is recorded in the trace of the
  page and has no other effect on the state modelled here.
\<close>

type_synonym selector = string
type_synonym callback = string
type_synonym addr = nat
type_synonym node_id = nat

datatype error = TypeError

text \<open>
  An object holding some of the ten recognised keys. \<open>None\<close> is a key that is absent
  (reading it gives \<open>undefined\<close>).
\<close>

record obj =
  watchChangesStatus :: "string option"
  watchChangesAlert :: "string option"
  watchChangesStatusElement :: "selector option"
  watchChangesSavedElement :: "selector option"
  watchChangesExceptions :: "selector option"
  watchChangesSubmits :: "selector option"
  watchChangesIgnored :: "selector option"
  onUnload :: "callback option"
  onSetAlert :: "callback option"
  onUnsetAlert :: "callback option"

definition empty_obj :: obj where
  "empty_obj =
     \<lparr>watchChangesStatus = None, watchChangesAlert = None,
      watchChangesStatusElement = None, watchChangesSavedElement = None,
      watchChangesExceptions = None, watchChangesSubmits = None,
      watchChangesIgnored = None, onUnload = None, onSetAlert = None,
      onUnsetAlert = None\<rparr>"

text \<open>The object literal bound to \<open>_defaults\<close> when the module is loaded.\<close>

definition defaults_init :: obj where
  "defaults_init =
     \<lparr>watchChangesStatus = Some ''There are unsaved changes on this page'',
      watchChangesAlert = Some ''You've made changes on this page that are NOT SAVED and will be LOST if you leave this page. Are you sure you want continue?'',
      watchChangesStatusElement = Some ''.js-watch-changes-status'',
      watchChangesSavedElement = Some ''.js-watch-changes-saved'',
      watchChangesExceptions = Some ''[type=submit], [data-submit]'',
      watchChangesSubmits = Some ''[type=submit], [data-submit]'',
      watchChangesIgnored = Some ''[data-ignore-changes]'',
      onUnload = Some ''default onUnload'',
      onSetAlert = Some ''default onSetAlert'',
      onUnsetAlert = Some ''default onUnsetAlert''\<rparr>"

text \<open>The address of \<open>_defaults\<close>.\<close>

definition defaults_addr :: addr where
  "defaults_addr = 0"

text \<open>
  An element of the page is described by the selectors it matches; an element of the
  status display has a text and a set of classes.
\<close>

type_synonym element = "selector set"

record node =
  node_text :: string
  node_classes :: "string set"

datatype hook = UnloadHook | SetAlertHook | UnsetAlertHook

text \<open>
  The function that \<open>setAlert\<close> stores in \<open>window.onbeforeunload\<close> closes over the
  local variable \<open>options\<close>, an address.
\<close>

datatype unload_handler = Guard addr

record world =
  heap :: "addr \<Rightarrow> obj"
  next_addr :: addr
  onbeforeunload :: "unload_handler option"
  nodes :: "node_id \<Rightarrow> node"
  document :: "selector \<Rightarrow> node_id list"
  trace :: "(hook \<times> callback) list"

text \<open>
  The value of \<open>util.jqCheck( scope )\<close>: a jQuery set, of which the module reads the
  length and the data attributes of its first element (\<open>.data()\<close>).
\<close>

record region =
  scope_length :: nat
  scope_data :: obj

datatype event_type = Click | Keyup | Change

text \<open>
  An event that occurs inside the region: its target (\<open>e.target\<close>), a descendant of
  the region element, and the ancestors of the target below the region element,
  nearest first.
\<close>

record event =
  ev_type :: event_type
  ev_target :: element
  ev_ancestors :: "element list"
  immediatePropagationStopped :: bool

text \<open>
  The two functions that \<open>init\<close> registers. The second closes over the local variable
  \<open>options\<close> of \<open>init\<close>.
\<close>

datatype handler = SubmitClick | FieldMutation addr

record listener =
  l_types :: "event_type list"
  l_selector :: "selector option"
  l_handler :: handler

record session =
  hasChanges :: bool
  isException :: bool
  scope :: region
  dataOptions :: "obj option"
  options :: "addr option"
  statusNote :: "node_id list option"
  savedChanges :: "node_id list option"
  listeners :: "listener list"

section \<open>jQuery\<close>

text \<open>
  \<open>$.extend( target, o1, o2 )\<close> copies every key of \<open>o1\<close>, then of \<open>o2\<close>, whose value
  is not \<open>undefined\<close> into \<open>target\<close> and returns \<open>target\<close> itself; an argument that
  is \<open>undefined\<close> is skipped, and a target that is \<open>undefined\<close> is replaced by a new
  empty object.
\<close>

definition over :: "'a option \<Rightarrow> 'a option \<Rightarrow> 'a option" where
  "over new old = (case new of None \<Rightarrow> old | Some v \<Rightarrow> Some v)"

definition copy_keys :: "obj \<Rightarrow> obj \<Rightarrow> obj" where
  "copy_keys src tgt =
     \<lparr>watchChangesStatus = over (watchChangesStatus src) (watchChangesStatus tgt),
      watchChangesAlert = over (watchChangesAlert src) (watchChangesAlert tgt),
      watchChangesStatusElement =
        over (watchChangesStatusElement src) (watchChangesStatusElement tgt),
      watchChangesSavedElement =
        over (watchChangesSavedElement src) (watchChangesSavedElement tgt),
      watchChangesExceptions =
        over (watchChangesExceptions src) (watchChangesExceptions tgt),
      watchChangesSubmits = over (watchChangesSubmits src) (watchChangesSubmits tgt),
      watchChangesIgnored = over (watchChangesIgnored src) (watchChangesIgnored tgt),
      onUnload = over (onUnload src) (onUnload tgt),
      onSetAlert = over (onSetAlert src) (onSetAlert tgt),
      onUnsetAlert = over (onUnsetAlert src) (onUnsetAlert tgt)\<rparr>"

definition copy_arg :: "obj option \<Rightarrow> obj \<Rightarrow> obj" where
  "copy_arg arg tgt = (case arg of None \<Rightarrow> tgt | Some src \<Rightarrow> copy_keys src tgt)"

definition alloc :: "world \<Rightarrow> addr \<times> world" where
  "alloc w =
     (next_addr w,
      w\<lparr>heap := (heap w)(next_addr w := empty_obj), next_addr := Suc (next_addr w)\<rparr>)"

definition jq_extend :: "world \<Rightarrow> addr option \<Rightarrow> obj option list \<Rightarrow> addr \<times> world" where
  "jq_extend w target args =
     (let (a, w1) = (case target of None \<Rightarrow> alloc w | Some t \<Rightarrow> (t, w))
      in (a, w1\<lparr>heap := (heap w1)(a := fold copy_arg args (heap w1 a))\<rparr>))"

text \<open>\<open>$x.is( sel )\<close>: some element of the set matches; never for \<open>undefined\<close>.\<close>

definition jq_is :: "element list \<Rightarrow> selector option \<Rightarrow> bool" where
  "jq_is els sel = (case sel of None \<Rightarrow> False | Some q \<Rightarrow> list_ex (\<lambda>el. q \<in> el) els)"

text \<open>\<open>$( sel )\<close>: the elements of the page that match; none for \<open>undefined\<close>.\<close>

definition jq_select :: "world \<Rightarrow> selector option \<Rightarrow> node_id list" where
  "jq_select w sel = (case sel of None \<Rightarrow> [] | Some q \<Rightarrow> document w q)"

text \<open>\<open>.text( v )\<close> sets the text of every element of the set (nothing for \<open>undefined\<close>).\<close>

definition jq_text :: "world \<Rightarrow> node_id list \<Rightarrow> string option \<Rightarrow> world" where
  "jq_text w ns v =
     (case v of None \<Rightarrow> w
      | Some t \<Rightarrow>
          w\<lparr>nodes := (\<lambda>n. if n \<in> set ns then (nodes w n)\<lparr>node_text := t\<rparr> else nodes w n)\<rparr>)"

definition addClass :: "world \<Rightarrow> node_id list \<Rightarrow> string \<Rightarrow> world" where
  "addClass w ns c =
     w\<lparr>nodes := (\<lambda>n. if n \<in> set ns
                      then (nodes w n)\<lparr>node_classes := insert c (node_classes (nodes w n))\<rparr>
                      else nodes w n)\<rparr>"

definition removeClass :: "world \<Rightarrow> node_id list \<Rightarrow> string \<Rightarrow> world" where
  "removeClass w ns c =
     w\<lparr>nodes := (\<lambda>n. if n \<in> set ns
                      then (nodes w n)\<lparr>node_classes := node_classes (nodes w n) - {c}\<rparr>
                      else nodes w n)\<rparr>"

section \<open>The methods of a watcher\<close>

text \<open>
  Every method takes the page and the watcher (\<open>this\<close>) and returns the new ones, or
  the error it throws. Reading a property of \<open>undefined\<close> and calling \<open>undefined\<close>
  throw a \<open>TypeError\<close>.
\<close>

definition setAlert :: "world \<Rightarrow> session \<Rightarrow> obj option \<Rightarrow> error + world" where
  "setAlert w s opts =
     (let (a, w1) = jq_extend w (options s) [opts]
      in case onSetAlert (heap w1 a) of
           None \<Rightarrow> Inl TypeError
         | Some cb \<Rightarrow>
             (let w2 = w1\<lparr>trace := trace w1 @ [(SetAlertHook, cb)]\<rparr>
              in if onbeforeunload w2 = None
                 then Inr (w2\<lparr>onbeforeunload := Some (Guard a)\<rparr>)
                 else Inr w2))"

definition unsetAlert :: "world \<Rightarrow> session \<Rightarrow> error + world" where
  "unsetAlert w s =
     (case options s of
        None \<Rightarrow> Inl TypeError
      | Some a \<Rightarrow>
          (case onUnsetAlert (heap w a) of
             None \<Rightarrow> Inl TypeError
           | Some cb \<Rightarrow>
               Inr (w\<lparr>trace := trace w @ [(UnsetAlertHook, cb)], onbeforeunload := None\<rparr>)))"

text \<open>
  The function installed by \<open>setAlert\<close>, as the browser calls it before the page is
  left: it calls \<open>options.onUnload\<close> and returns \<open>options.watchChangesAlert\<close>, both
  read at that moment.
\<close>

definition beforeunload :: "world \<Rightarrow> error + (world \<times> string option)" where
  "beforeunload w =
     (case onbeforeunload w of
        None \<Rightarrow> Inr (w, None)
      | Some (Guard a) \<Rightarrow>
          (case onUnload (heap w a) of
             None \<Rightarrow> Inl TypeError
           | Some cb \<Rightarrow>
               Inr (w\<lparr>trace := trace w @ [(UnloadHook, cb)]\<rparr>,
                    watchChangesAlert (heap w a))))"

text \<open>
  \<open>checkForException\<close> reads \<open>this.options.watchChangesExceptions\<close> in its \<open>var\<close>
  statement, before it looks at the length of the set.
\<close>

definition checkForException :: "world \<Rightarrow> session \<Rightarrow> element list \<Rightarrow> error + (session \<times> bool)" where
  "checkForException w s els =
     (case options s of
        None \<Rightarrow> Inl TypeError
      | Some a \<Rightarrow>
          (let exceptions = watchChangesExceptions (heap w a)
           in if els = [] then Inr (s, True)
              else (let s1 = s\<lparr>isException := jq_is els exceptions\<rparr>;
                        s2 = (if \<not> isException s1 then s1\<lparr>hasChanges := True\<rparr> else s1)
                    in Inr (s2, isException s2))))"

definition hideSavedChangesMessage :: "world \<Rightarrow> session \<Rightarrow> error + world" where
  "hideSavedChangesMessage w s =
     (case savedChanges s of
        None \<Rightarrow> Inl TypeError
      | Some ns \<Rightarrow> Inr (addClass w ns ''hidden''))"

definition showSavedChangesMessage :: "world \<Rightarrow> session \<Rightarrow> error + world" where
  "showSavedChangesMessage w s =
     (case savedChanges s of
        None \<Rightarrow> Inl TypeError
      | Some ns \<Rightarrow> Inr (removeClass w ns ''hidden''))"

text \<open>\<open>status || this.options.watchChangesStatus\<close>: the empty string is falsy.\<close>

definition status_or_option :: "world \<Rightarrow> session \<Rightarrow> string option \<Rightarrow> error + string option" where
  "status_or_option w s status =
     (if status \<noteq> None \<and> status \<noteq> Some []
      then Inr status
      else (case options s of
              None \<Rightarrow> Inl TypeError
            | Some a \<Rightarrow> Inr (watchChangesStatus (heap w a))))"

definition updateStatusNote :: "world \<Rightarrow> session \<Rightarrow> string option \<Rightarrow> error + world" where
  "updateStatusNote w s status =
     (case status_or_option w s status of
        Inl e \<Rightarrow> Inl e
      | Inr st \<Rightarrow>
          (if hasChanges s
           then (case statusNote s of
                   None \<Rightarrow> Inl TypeError
                 | Some ns \<Rightarrow>
                     (case hideSavedChangesMessage
                             (addClass (jq_text w ns st) ns ''has-changes'') s of
                        Inl e \<Rightarrow> Inl e
                      | Inr w1 \<Rightarrow> setAlert w1 s None))
           else (case statusNote s of
                   None \<Rightarrow> Inl TypeError
                 | Some ns \<Rightarrow>
                     (case showSavedChangesMessage
                             (removeClass w ns ''has-changes'') s of
                        Inl e \<Rightarrow> Inl e
                      | Inr w1 \<Rightarrow> unsetAlert w1 s))))"

definition updateHasChanges :: "world \<Rightarrow> session \<Rightarrow> bool \<Rightarrow> error + (world \<times> session)" where
  "updateHasChanges w s state =
     (let s1 = s\<lparr>hasChanges := state\<rparr>
      in case updateStatusNote w s1 None of
           Inl e \<Rightarrow> Inl e
         | Inr w1 \<Rightarrow> Inr (w1, s1))"

section \<open>The two event handlers\<close>

text \<open>The click handler: \<open>e.stopImmediatePropagation(); self.unsetAlert();\<close>\<close>

definition onSubmitIntent :: "world \<Rightarrow> session \<Rightarrow> event \<Rightarrow> error + (world \<times> session \<times> event)" where
  "onSubmitIntent w s e =
     (let e1 = e\<lparr>immediatePropagationStopped := True\<rparr>
      in case unsetAlert w s of
           Inl x \<Rightarrow> Inl x
         | Inr w1 \<Rightarrow> Inr (w1, s, e1))"

text \<open>
  The tail of the keyup/change handler, after \<open>checkForException\<close>: the status update
  followed by the test on \<open>isException\<close> and \<open>hasChanges\<close>.
\<close>

definition status_then_guard :: "world \<Rightarrow> session \<Rightarrow> error + world" where
  "status_then_guard w s =
     (case updateStatusNote w s None of
        Inl x \<Rightarrow> Inl x
      | Inr w1 \<Rightarrow>
          (if \<not> isException s \<and> hasChanges s then setAlert w1 s None
           else if isException s then unsetAlert w1 s
           else Inr w1))"

text \<open>
  The keyup/change handler; \<open>oa\<close> is the address in the variable \<open>options\<close> that the
  handler closes over.
\<close>

definition onFieldMutation :: "world \<Rightarrow> session \<Rightarrow> addr \<Rightarrow> event \<Rightarrow> error + (world \<times> session \<times> event)" where
  "onFieldMutation w s oa e =
     (let ignored = watchChangesIgnored (heap w oa)
      in if jq_is [ev_target e] ignored then Inr (w, s, e)
         else (case checkForException w s [ev_target e] of
                 Inl x \<Rightarrow> Inl x
               | Inr (s1, r) \<Rightarrow>
                   (case status_then_guard w s1 of
                      Inl x \<Rightarrow> Inl x
                    | Inr w1 \<Rightarrow> Inr (w1, s1, e))))"

section \<open>Construction and the delivery of events\<close>

text \<open>
  \<open>init\<close> registers the click handler under the selector that
  \<open>options.watchChangesSubmits\<close> holds at that moment, and the keyup/change handler
  under \<open>'input, select, textarea'\<close>. \<open>.on\<close> binds to the elements of the set
  \<open>$scope\<close>, so nothing is bound when the set is empty; with a selector that is
  \<open>undefined\<close> the handler is bound directly.
\<close>

definition init :: "world \<Rightarrow> session \<Rightarrow> obj option \<Rightarrow> world \<times> session" where
  "init w s opts =
     (let (a, w1) = jq_extend w (options s) [opts];
          ls = (if scope_length (scope s) = 0 then []
                else [\<lparr>l_types = [Click],
                        l_selector = watchChangesSubmits (heap w1 a),
                        l_handler = SubmitClick\<rparr>,
                      \<lparr>l_types = [Keyup, Change],
                        l_selector = Some ''input, select, textarea'',
                        l_handler = FieldMutation a\<rparr>])
      in (w1, s\<lparr>listeners := listeners s @ ls\<rparr>))"

text \<open>
  \<open>new watchChanges( scope, options )\<close>, where \<open>jq\<close> is the value of
  \<open>util.jqCheck( scope )\<close>. The \<open>return false\<close> of a constructor called with \<open>new\<close>
  leaves the new object as the value.
\<close>

definition watchChanges :: "world \<Rightarrow> region \<Rightarrow> obj option \<Rightarrow> world \<times> session" where
  "watchChanges w jq opts =
     (let s0 = \<lparr>hasChanges = False, isException = False, scope = jq,
                dataOptions = None, options = None, statusNote = None,
                savedChanges = None, listeners = []\<rparr>
      in if scope_length jq = 0 then (w, s0)
         else (let d = scope_data jq;
                   (a, w1) = jq_extend w (Some defaults_addr) [opts, Some d];
                   s1 = s0\<lparr>dataOptions := Some d, options := Some a,
                           statusNote :=
                             Some (jq_select w1 (watchChangesStatusElement (heap w1 a))),
                           savedChanges :=
                             Some (jq_select w1 (watchChangesSavedElement (heap w1 a)))\<rparr>
               in init w1 s1 None))"

definition run_handler :: "world \<Rightarrow> session \<Rightarrow> event \<Rightarrow> handler \<Rightarrow> error + (world \<times> session \<times> event)" where
  "run_handler w s e h =
     (case h of
        SubmitClick \<Rightarrow> onSubmitIntent w s e
      | FieldMutation oa \<Rightarrow> onFieldMutation w s oa e)"

text \<open>
  jQuery's delivery of an event to the region. A handler registered with a selector
  runs once for every element that matches the selector on the way from the target up
  to the region element, nearest element first and, at one element, in the order of
  registration; handlers bound directly run last. The queue is computed before the
  first handler runs, and it is run until a handler stops the propagation or throws.
  The events are key and change events and primary-button clicks on enabled elements,
  and the elements of the region are not nested in one another.
\<close>

definition matches_at :: "listener \<Rightarrow> event \<Rightarrow> element \<Rightarrow> bool" where
  "matches_at l e cur =
     (ev_type e \<in> set (l_types l) \<and>
      (case l_selector l of None \<Rightarrow> False | Some q \<Rightarrow> q \<in> cur))"

definition bound_directly :: "listener \<Rightarrow> event \<Rightarrow> bool" where
  "bound_directly l e = (ev_type e \<in> set (l_types l) \<and> l_selector l = None)"

definition handler_queue :: "listener list \<Rightarrow> event \<Rightarrow> handler list" where
  "handler_queue ls e =
     concat (map (\<lambda>cur. map l_handler (filter (\<lambda>l. matches_at l e cur) ls))
               (ev_target e # ev_ancestors e)) @
     map l_handler (filter (\<lambda>l. bound_directly l e) ls)"

fun run_queue :: "world \<Rightarrow> session \<Rightarrow> event \<Rightarrow> handler list \<Rightarrow> error + (world \<times> session \<times> event)" where
  "run_queue w s e [] = Inr (w, s, e)"
| "run_queue w s e (h # hs) =
     (if immediatePropagationStopped e then Inr (w, s, e)
      else (case run_handler w s e h of
              Inl x \<Rightarrow> Inl x
            | Inr (w1, s1, e1) \<Rightarrow> run_queue w1 s1 e1 hs))"

definition dispatch :: "world \<Rightarrow> session \<Rightarrow> event \<Rightarrow> error + (world \<times> session \<times> event)" where
  "dispatch w s e = run_queue w s e (handler_queue (listeners s) e)"

text \<open>The page once the module is loaded: \<open>_defaults\<close> is the only object.\<close>

definition loaded :: "(selector \<Rightarrow> node_id list) \<Rightarrow> world" where
  "loaded doc =
     \<lparr>heap = (\<lambda>a. empty_obj)(defaults_addr := defaults_init),
      next_addr = Suc defaults_addr,
      onbeforeunload = None,
      nodes = (\<lambda>n. \<lparr>node_text = [], node_classes = {}\<rparr>),
      document = doc,
      trace = []\<rparr>"

section \<open>Runs of a watcher\<close>

text \<open>
  What happens to a watcher on a page: the host delivers an event to its region, or a
  caller invokes one of the handlers or methods directly. A run stops at the first
  error thrown.
\<close>

datatype action =
    Deliver event
  | Mutation addr event
  | SubmitIntent event
  | SetDirty bool
  | Arm "obj option"

definition drop_event :: "error + (world \<times> session \<times> event) \<Rightarrow> error + (world \<times> session)" where
  "drop_event r = (case r of Inl x \<Rightarrow> Inl x | Inr (w, s, e) \<Rightarrow> Inr (w, s))"

definition keep_session :: "session \<Rightarrow> error + world \<Rightarrow> error + (world \<times> session)" where
  "keep_session s r = (case r of Inl x \<Rightarrow> Inl x | Inr w \<Rightarrow> Inr (w, s))"

fun step :: "world \<times> session \<Rightarrow> action \<Rightarrow> error + (world \<times> session)" where
  "step (w, s) (Deliver e) = drop_event (dispatch w s e)"
| "step (w, s) (Mutation oa e) = drop_event (onFieldMutation w s oa e)"
| "step (w, s) (SubmitIntent e) = drop_event (onSubmitIntent w s e)"
| "step (w, s) (SetDirty state) = updateHasChanges w s state"
| "step (w, s) (Arm opts) = keep_session s (setAlert w s opts)"

fun run :: "world \<times> session \<Rightarrow> action list \<Rightarrow> error + (world \<times> session)" where
  "run c [] = Inr c"
| "run c (x # xs) = (case step c x of Inl err \<Rightarrow> Inl err | Inr c1 \<Rightarrow> run c1 xs)"

text \<open>The state reached by a run (the starting state when the run throws).\<close>

definition after :: "world \<times> session \<Rightarrow> action list \<Rightarrow> world \<times> session" where
  "after c xs = (case run c xs of Inl err \<Rightarrow> c | Inr c1 \<Rightarrow> c1)"

section \<open>What the claims speak of\<close>

text \<open>The guard is armed when \<open>window.onbeforeunload\<close> holds a handler.\<close>

definition armed :: "world \<Rightarrow> bool" where
  "armed w = (onbeforeunload w \<noteq> None)"

text \<open>The three observations of the state machine: dirty, excepted, guard armed.\<close>

definition observe :: "world \<times> session \<Rightarrow> bool \<times> bool \<times> bool" where
  "observe c = (hasChanges (snd c), isException (snd c), armed (fst c))"

text \<open>The tests of the handler on its target.\<close>

definition ignored_target :: "world \<Rightarrow> addr \<Rightarrow> event \<Rightarrow> bool" where
  "ignored_target w oa e = jq_is [ev_target e] (watchChangesIgnored (heap w oa))"

definition exception_target :: "world \<Rightarrow> session \<Rightarrow> event \<Rightarrow> bool" where
  "exception_target w s e =
     (case options s of
        None \<Rightarrow> False
      | Some a \<Rightarrow> jq_is [ev_target e] (watchChangesExceptions (heap w a)))"

text \<open>The configuration of a watcher: the object that \<open>this.options\<close> refers to.\<close>

definition config_of :: "world \<times> session \<Rightarrow> obj option" where
  "config_of c = (case options (snd c) of None \<Rightarrow> None | Some a \<Rightarrow> Some (heap (fst c) a))"

text \<open>
  An object with all ten keys, as \<open>_defaults\<close> is, and a watcher whose constructor
  went past the test of the region: its options are such an object and both sets of
  status elements are there.
\<close>

definition full :: "obj \<Rightarrow> bool" where
  "full ob =
     (watchChangesStatus ob \<noteq> None \<and> watchChangesAlert ob \<noteq> None \<and>
      watchChangesStatusElement ob \<noteq> None \<and> watchChangesSavedElement ob \<noteq> None \<and>
      watchChangesExceptions ob \<noteq> None \<and> watchChangesSubmits ob \<noteq> None \<and>
      watchChangesIgnored ob \<noteq> None \<and> onUnload ob \<noteq> None \<and>
      onSetAlert ob \<noteq> None \<and> onUnsetAlert ob \<noteq> None)"

definition live :: "world \<Rightarrow> session \<Rightarrow> bool" where
  "live w s =
     ((case options s of None \<Rightarrow> False | Some a \<Rightarrow> full (heap w a)) \<and>
      statusNote s \<noteq> None \<and> savedChanges s \<noteq> None)"

text \<open>The presentation: what the status elements and the saved-message show.\<close>

definition dirty_shown :: "world \<Rightarrow> session \<Rightarrow> bool" where
  "dirty_shown w s =
     (case (statusNote s, config_of (w, s)) of
        (Some ns, Some ob) \<Rightarrow>
          list_all (\<lambda>n. Some (node_text (nodes w n)) = watchChangesStatus ob \<and>
                         ''has-changes'' \<in> node_classes (nodes w n)) ns
      | _ \<Rightarrow> False)"

definition dirty_cleared :: "world \<Rightarrow> session \<Rightarrow> bool" where
  "dirty_cleared w s =
     (case statusNote s of
        Some ns \<Rightarrow> list_all (\<lambda>n. ''has-changes'' \<notin> node_classes (nodes w n)) ns
      | None \<Rightarrow> False)"

definition saved_hidden :: "world \<Rightarrow> session \<Rightarrow> bool" where
  "saved_hidden w s =
     (case savedChanges s of
        Some ms \<Rightarrow> list_all (\<lambda>n. ''hidden'' \<in> node_classes (nodes w n)) ms
      | None \<Rightarrow> False)"

definition saved_shown :: "world \<Rightarrow> session \<Rightarrow> bool" where
  "saved_shown w s =
     (case savedChanges s of
        Some ms \<Rightarrow> list_all (\<lambda>n. ''hidden'' \<notin> node_classes (nodes w n)) ms
      | None \<Rightarrow> False)"

text \<open>
  The specification's reading of \<open>setDirty\<close>: assign \<open>hasChanges\<close>, then steps 3 and 4
  of the mutation handler. It is compared below with \<open>updateHasChanges\<close>.
\<close>

definition setDirty_spec :: "world \<times> session \<Rightarrow> bool \<Rightarrow> error + (world \<times> session)" where
  "setDirty_spec c state =
     (let s1 = (snd c)\<lparr>hasChanges := state\<rparr>
      in keep_session s1 (status_then_guard (fst c) s1))"

section \<open>A page with two regions\<close>

definition doc0 :: "selector \<Rightarrow> node_id list" where
  "doc0 q =
     (if q = ''.js-watch-changes-status'' then [0]
      else if q = ''.js-watch-changes-saved'' then [1]
      else [])"

definition form :: region where
  "form = \<lparr>scope_length = 1, scope_data = empty_obj\<rparr>"

definition other_form :: region where
  "other_form =
     \<lparr>scope_length = 1,
      scope_data = empty_obj\<lparr>watchChangesStatus := Some ''Draft not saved''\<rparr>\<rparr>"

definition missing :: region where
  "missing = \<lparr>scope_length = 0, scope_data = empty_obj\<rparr>"

definition custom :: obj where
  "custom =
     empty_obj\<lparr>watchChangesAlert := Some ''Custom warning message'',
               onSetAlert := Some ''count arms''\<rparr>"

definition other :: obj where
  "other =
     empty_obj\<lparr>watchChangesAlert := Some ''Leave?'', onSetAlert := Some ''log arms''\<rparr>"

definition name_input :: element where
  "name_input = {''input, select, textarea''}"

definition submit_input :: element where
  "submit_input = {''input, select, textarea'', ''[type=submit], [data-submit]''}"

definition ignored_submit :: element where
  "ignored_submit =
     {''input, select, textarea'', ''[type=submit], [data-submit]'',
      ''[data-ignore-changes]''}"

definition submit_button :: element where
  "submit_button = {''[type=submit], [data-submit]''}"

definition label_span :: element where
  "label_span = {}"

definition keyup :: "element \<Rightarrow> event" where
  "keyup t =
     \<lparr>ev_type = Keyup, ev_target = t, ev_ancestors = [],
      immediatePropagationStopped = False\<rparr>"

definition click :: "element \<Rightarrow> event" where
  "click t =
     \<lparr>ev_type = Click, ev_target = t, ev_ancestors = [],
      immediatePropagationStopped = False\<rparr>"

text \<open>A click on an element with the given ancestors inside the region.\<close>

definition click_in :: "element \<Rightarrow> element list \<Rightarrow> event" where
  "click_in t ancs =
     \<lparr>ev_type = Click, ev_target = t, ev_ancestors = ancs,
      immediatePropagationStopped = False\<rparr>"

text \<open>
  \<open>fresh\<close>: a watcher on the first form, no options. \<open>watched\<close>: the same with the
  options \<open>custom\<close>. \<open>inert\<close>: a watcher on a selector that matches nothing.
\<close>

definition fresh :: "world \<times> session" where
  "fresh = watchChanges (loaded doc0) form None"

definition watched :: "world \<times> session" where
  "watched = watchChanges (loaded doc0) form (Some custom)"

definition inert :: "world \<times> session" where
  "inert = watchChanges (loaded doc0) missing None"

text \<open>What every handler and method keeps.\<close>

definition keeps :: "world \<times> session \<Rightarrow> world \<times> session \<Rightarrow> bool" where
  "keeps c c1 =
     (live (fst c1) (snd c1) \<and> options (snd c1) = options (snd c) \<and>
      listeners (snd c1) = listeners (snd c) \<and>
      (hasChanges (snd c) \<longrightarrow> hasChanges (snd c1)))"

text \<open>What every run keeps, also one that resets \<open>hasChanges\<close>.\<close>

definition stays :: "world \<times> session \<Rightarrow> world \<times> session \<Rightarrow> bool" where
  "stays c c1 =
     (live (fst c1) (snd c1) \<and> options (snd c1) = options (snd c) \<and>
      listeners (snd c1) = listeners (snd c))"

text \<open>
  \<open>dirty\<close>: the watcher \<open>watched\<close> after a keyup in a plain text input.
  \<open>excepted\<close>: the watcher \<open>fresh\<close> after a keyup in a submit input.
\<close>

definition dirty :: "world \<times> session" where
  "dirty = after watched [Deliver (keyup name_input)]"

definition excepted :: "world \<times> session" where
  "excepted = after fresh [Deliver (keyup submit_input)]"

section \<open>The methods on a constructed watcher\<close>

lemma jq_extend_no_args: "jq_extend w (Some a) [None] = (a, w)"
  by (simp add: jq_extend_def copy_arg_def)

lemma liveD:
  assumes "live w s"
  obtains a cb1 cb2 ns ms st where "options s = Some a" and "full (heap w a)"
    and "onSetAlert (heap w a) = Some cb1" and "onUnsetAlert (heap w a) = Some cb2"
    and "statusNote s = Some ns" and "savedChanges s = Some ms"
    and "watchChangesStatus (heap w a) = Some st"
  using assms by (auto simp: live_def full_def split: option.splits)

lemma setAlert_plain:
  assumes "options s = Some a" and "onSetAlert (heap w a) = Some cb"
  shows "setAlert w s None =
           Inr (w\<lparr>trace := trace w @ [(SetAlertHook, cb)],
                  onbeforeunload :=
                    (case onbeforeunload w of None \<Rightarrow> Some (Guard a) | Some h \<Rightarrow> Some h)\<rparr>)"
  using assms by (auto simp: setAlert_def jq_extend_no_args split: option.splits)

lemma unsetAlert_plain:
  assumes "options s = Some a" and "onUnsetAlert (heap w a) = Some cb"
  shows "unsetAlert w s =
           Inr (w\<lparr>trace := trace w @ [(UnsetAlertHook, cb)], onbeforeunload := None\<rparr>)"
  using assms by (simp add: unsetAlert_def)

lemma updateStatusNote_dirty:
  assumes "options s = Some a" and "onSetAlert (heap w a) = Some cb"
    and "statusNote s = Some ns" and "savedChanges s = Some ms" and "hasChanges s"
  shows "updateStatusNote w s None =
           Inr ((addClass (addClass (jq_text w ns (watchChangesStatus (heap w a))) ns ''has-changes'') ms ''hidden'')
                \<lparr>trace := trace w @ [(SetAlertHook, cb)],
                  onbeforeunload :=
                    (case onbeforeunload w of None \<Rightarrow> Some (Guard a) | Some h \<Rightarrow> Some h)\<rparr>)"
proof -
  let ?w1 = "addClass (addClass (jq_text w ns (watchChangesStatus (heap w a))) ns ''has-changes'') ms ''hidden''"
  have h: "heap ?w1 = heap w" "trace ?w1 = trace w" "onbeforeunload ?w1 = onbeforeunload w"
    by (simp_all add: addClass_def jq_text_def split: option.splits)
  have "setAlert ?w1 s None = Inr (?w1\<lparr>trace := trace ?w1 @ [(SetAlertHook, cb)],
                  onbeforeunload :=
                    (case onbeforeunload ?w1 of None \<Rightarrow> Some (Guard a) | Some h \<Rightarrow> Some h)\<rparr>)"
    by (rule setAlert_plain [where a = a]) (simp_all add: assms h)
  then show ?thesis
    using assms by (simp add: updateStatusNote_def status_or_option_def hideSavedChangesMessage_def h)
qed

lemma updateStatusNote_clean:
  assumes "options s = Some a" and "onUnsetAlert (heap w a) = Some cb"
    and "statusNote s = Some ns" and "savedChanges s = Some ms" and "\<not> hasChanges s"
  shows "updateStatusNote w s None =
           Inr ((removeClass (removeClass w ns ''has-changes'') ms ''hidden'')
                \<lparr>trace := trace w @ [(UnsetAlertHook, cb)], onbeforeunload := None\<rparr>)"
proof -
  let ?w1 = "removeClass (removeClass w ns ''has-changes'') ms ''hidden''"
  have h: "heap ?w1 = heap w" "trace ?w1 = trace w"
    by (simp_all add: removeClass_def)
  have "unsetAlert ?w1 s = Inr (?w1\<lparr>trace := trace ?w1 @ [(UnsetAlertHook, cb)], onbeforeunload := None\<rparr>)"
    by (rule unsetAlert_plain [where a = a]) (simp_all add: assms h)
  then show ?thesis
    using assms by (simp add: updateStatusNote_def status_or_option_def showSavedChangesMessage_def h)
qed

lemma updateStatusNote_frame:
  assumes "live w s"
  shows "\<exists>w1. updateStatusNote w s None = Inr w1 \<and> heap w1 = heap w \<and>
           (onbeforeunload w1 \<noteq> None) = hasChanges s"
proof -
  from assms obtain a cb1 cb2 ns ms st where
    l: "options s = Some a" "onSetAlert (heap w a) = Some cb1"
       "onUnsetAlert (heap w a) = Some cb2" "statusNote s = Some ns" "savedChanges s = Some ms"
    by (rule liveD)
  show ?thesis
  proof (cases "hasChanges s")
    case True
    with l show ?thesis
      by (simp add: updateStatusNote_dirty [where a = a and cb = cb1 and ns = ns and ms = ms]
            addClass_def jq_text_def split: option.splits)
  next
    case False
    with l show ?thesis
      by (simp add: updateStatusNote_clean [where a = a and cb = cb2 and ns = ns and ms = ms]
            removeClass_def)
  qed
qed

lemma updateStatusNote_trace:
  assumes "options s = Some a"
    and "onSetAlert (heap w a) = Some cb1" and "onUnsetAlert (heap w a) = Some cb2"
    and "statusNote s \<noteq> None" and "savedChanges s \<noteq> None"
  shows "\<exists>w1. updateStatusNote w s None = Inr w1 \<and> heap w1 = heap w \<and>
           trace w1 = trace w @ (if hasChanges s
                                 then [(SetAlertHook, cb1)]
                                 else [(UnsetAlertHook, cb2)])"
proof -
  from assms obtain ns ms where
    l: "statusNote s = Some ns" "savedChanges s = Some ms"
    by auto
  show ?thesis
  proof (cases "hasChanges s")
    case True
    with l assms(1,2) show ?thesis
      by (simp add: updateStatusNote_dirty [where a = a and cb = cb1 and ns = ns and ms = ms]
            addClass_def jq_text_def split: option.splits)
  next
    case False
    with l assms(1,3) show ?thesis
      by (simp add: updateStatusNote_clean [where a = a and cb = cb2 and ns = ns and ms = ms]
            removeClass_def)
  qed
qed

lemma checkForException_plain:
  assumes "options s = Some a"
  shows "checkForException w s [t] =
           (if jq_is [t] (watchChangesExceptions (heap w a))
            then Inr (s\<lparr>isException := True\<rparr>, True)
            else Inr (s\<lparr>isException := False, hasChanges := True\<rparr>, False))"
  using assms by (simp add: checkForException_def Let_def)

lemma live_fields:
  "live w (s\<lparr>isException := x\<rparr>) = live w s"
  "live w (s\<lparr>hasChanges := y\<rparr>) = live w s"
  by (simp_all add: live_def)

lemma live_heap: "heap w1 = heap w \<Longrightarrow> live w1 s = live w s"
  by (simp add: live_def split: option.splits)

lemma mutation_not_exception:
  assumes "live w s" and "options s = Some a"
    and "\<not> jq_is [ev_target e] (watchChangesIgnored (heap w oa))"
    and "\<not> jq_is [ev_target e] (watchChangesExceptions (heap w a))"
  shows "\<exists>w1. onFieldMutation w s oa e =
                  Inr (w1, s\<lparr>isException := False, hasChanges := True\<rparr>, e) \<and>
              heap w1 = heap w \<and> onbeforeunload w1 \<noteq> None"
proof -
  let ?s1 = "s\<lparr>isException := False, hasChanges := True\<rparr>"
  from assms(1,2) have f: "full (heap w a)"
    by (simp add: live_def)
  then obtain cb where c: "onSetAlert (heap w a) = Some cb"
    by (auto simp: full_def)
  from assms(1) have l1: "live w ?s1" by (simp add: live_fields)
  obtain w1 where u: "updateStatusNote w ?s1 None = Inr w1" "heap w1 = heap w"
      "onbeforeunload w1 \<noteq> None"
    using updateStatusNote_frame [OF l1] by auto
  let ?w2 = "w1\<lparr>trace := trace w1 @ [(SetAlertHook, cb)],
                  onbeforeunload :=
                    (case onbeforeunload w1 of None \<Rightarrow> Some (Guard a) | Some h \<Rightarrow> Some h)\<rparr>"
  have sa: "setAlert w1 ?s1 None = Inr ?w2"
    by (rule setAlert_plain [where a = a]) (simp_all add: assms(2) c u(2))
  have ck: "checkForException w s [ev_target e] = Inr (?s1, False)"
    using assms(4) by (simp add: checkForException_plain [OF assms(2)])
  have sg: "status_then_guard w ?s1 = Inr ?w2"
    using u(1) sa by (simp add: status_then_guard_def)
  have "onFieldMutation w s oa e = Inr (?w2, ?s1, e)"
    using assms(3) ck sg by (simp add: onFieldMutation_def)
  moreover have "heap ?w2 = heap w" using u(2) by simp
  moreover have "onbeforeunload ?w2 \<noteq> None" by (simp split: option.splits)
  ultimately show ?thesis by blast
qed

lemma mutation_exception:
  assumes "live w s" and "options s = Some a"
    and "onSetAlert (heap w a) = Some cb1" and "onUnsetAlert (heap w a) = Some cb2"
    and "\<not> jq_is [ev_target e] (watchChangesIgnored (heap w oa))"
    and "jq_is [ev_target e] (watchChangesExceptions (heap w a))"
  shows "\<exists>w1. onFieldMutation w s oa e = Inr (w1, s\<lparr>isException := True\<rparr>, e) \<and>
              heap w1 = heap w \<and> onbeforeunload w1 = None \<and>
              trace w1 = trace w @
                [if hasChanges s then (SetAlertHook, cb1) else (UnsetAlertHook, cb2),
                 (UnsetAlertHook, cb2)]"
proof -
  let ?s1 = "s\<lparr>isException := True\<rparr>"
  from assms(1,2) have f: "full (heap w a)" "statusNote s \<noteq> None" "savedChanges s \<noteq> None"
    by (simp_all add: live_def)
  have o1: "options ?s1 = Some a" "statusNote ?s1 \<noteq> None" "savedChanges ?s1 \<noteq> None"
    using assms(2) f by simp_all
  obtain w1 where u: "updateStatusNote w ?s1 None = Inr w1" "heap w1 = heap w"
      "trace w1 = trace w @ (if hasChanges ?s1
                                 then [(SetAlertHook, cb1)]
                                 else [(UnsetAlertHook, cb2)])"
    using updateStatusNote_trace [OF o1(1) assms(3,4) o1(2,3)] by auto
  let ?w2 = "w1\<lparr>trace := trace w1 @ [(UnsetAlertHook, cb2)], onbeforeunload := None\<rparr>"
  have ua: "unsetAlert w1 ?s1 = Inr ?w2"
    by (rule unsetAlert_plain [where a = a]) (simp_all add: assms(2,4) u(2))
  have ck: "checkForException w s [ev_target e] = Inr (?s1, True)"
    using assms(6) by (simp add: checkForException_plain [OF assms(2)])
  have sg: "status_then_guard w ?s1 = Inr ?w2"
    using u(1) ua by (simp add: status_then_guard_def)
  have "onFieldMutation w s oa e = Inr (?w2, ?s1, e)"
    using assms(5) ck sg by (simp add: onFieldMutation_def)
  moreover have "heap ?w2 = heap w" using u(2) by simp
  moreover have "trace ?w2 = trace w @
                [if hasChanges s then (SetAlertHook, cb1) else (UnsetAlertHook, cb2),
                 (UnsetAlertHook, cb2)]" using u(3) by simp
  ultimately show ?thesis by force
qed

lemma mutation_ignored:
  assumes "jq_is [ev_target e] (watchChangesIgnored (heap w oa))"
  shows "onFieldMutation w s oa e = Inr (w, s, e)"
  using assms by (simp add: onFieldMutation_def)

lemma submit_plain:
  assumes "options s = Some a" and "onUnsetAlert (heap w a) = Some cb"
  shows "onSubmitIntent w s e =
           Inr (w\<lparr>trace := trace w @ [(UnsetAlertHook, cb)], onbeforeunload := None\<rparr>, s,
                e\<lparr>immediatePropagationStopped := True\<rparr>)"
  using assms by (simp add: onSubmitIntent_def unsetAlert_plain [where a = a and cb = cb])

lemma setDirty_plain:
  assumes "live w s"
  shows "\<exists>w1. updateHasChanges w s state = Inr (w1, s\<lparr>hasChanges := state\<rparr>) \<and>
              heap w1 = heap w \<and> (onbeforeunload w1 \<noteq> None) = state"
  using updateStatusNote_frame [of w "s\<lparr>hasChanges := state\<rparr>"] assms
  by (auto simp: updateHasChanges_def live_fields)

section \<open>Construction, and what every run keeps\<close>

lemma copy_keys_empty: "copy_keys empty_obj tgt = tgt"
  by (simp add: copy_keys_def empty_obj_def over_def)

lemma full_copy_keys: "full tgt \<Longrightarrow> full (copy_keys src tgt)"
  by (auto simp: full_def copy_keys_def over_def split: option.splits)

lemma full_copy_arg: "full tgt \<Longrightarrow> full (copy_arg arg tgt)"
  by (simp add: copy_arg_def full_copy_keys split: option.splits)

lemma full_defaults_init: "full defaults_init"
  by (simp add: full_def defaults_init_def)

lemma watchChanges_options:
  assumes "scope_length jq \<noteq> 0"
  shows "options (snd (watchChanges w jq opts)) = Some defaults_addr"
    and "heap (fst (watchChanges w jq opts)) =
           (heap w)(defaults_addr :=
              copy_keys (scope_data jq) (copy_arg opts (heap w defaults_addr)))"
    and "statusNote (snd (watchChanges w jq opts)) \<noteq> None"
    and "savedChanges (snd (watchChanges w jq opts)) \<noteq> None"
    and "hasChanges (snd (watchChanges w jq opts)) = False"
    and "isException (snd (watchChanges w jq opts)) = False"
    and "onbeforeunload (fst (watchChanges w jq opts)) = onbeforeunload w"
    and "trace (fst (watchChanges w jq opts)) = trace w"
    and "nodes (fst (watchChanges w jq opts)) = nodes w"
  using assms
  by (simp_all add: watchChanges_def init_def jq_extend_def copy_arg_def Let_def)

lemma watchChanges_live:
  assumes "scope_length jq \<noteq> 0" and "full (heap w defaults_addr)"
  shows "live (fst (watchChanges w jq opts)) (snd (watchChanges w jq opts))"
  using assms
  by (simp add: live_def watchChanges_options full_copy_keys full_copy_arg)

lemma setAlert_opts:
  assumes "options s = Some a" and "full (heap w a)"
  shows "\<exists>w1 cb. setAlert w s opts = Inr w1 \<and>
           heap w1 = (heap w)(a := copy_arg opts (heap w a)) \<and>
           onbeforeunload w1 =
             (case onbeforeunload w of None \<Rightarrow> Some (Guard a) | Some h \<Rightarrow> Some h) \<and>
           nodes w1 = nodes w \<and>
           trace w1 = trace w @ [(SetAlertHook, cb)] \<and>
           onSetAlert (copy_arg opts (heap w a)) = Some cb"
proof -
  from assms(2) have "full (copy_arg opts (heap w a))" by (rule full_copy_arg)
  then obtain cb where "onSetAlert (copy_arg opts (heap w a)) = Some cb"
    by (auto simp: full_def)
  with assms(1) show ?thesis
    by (auto simp: setAlert_def jq_extend_def split: option.splits)
qed

lemma live_full_upd:
  assumes "live w s" and "heap w1 = (heap w)(a := ob)" and "full ob"
  shows "live w1 s"
  using assms by (auto simp: live_def split: option.splits)

lemma onFieldMutation_keeps:
  assumes "live w s"
  shows "\<exists>w1 s1. onFieldMutation w s oa e = Inr (w1, s1, e) \<and> keeps (w, s) (w1, s1)"
proof -
  from assms obtain a cb1 cb2 where
    a: "options s = Some a" "onSetAlert (heap w a) = Some cb1"
       "onUnsetAlert (heap w a) = Some cb2"
    by (rule liveD)
  show ?thesis
  proof (cases "jq_is [ev_target e] (watchChangesIgnored (heap w oa))")
    case True
    then show ?thesis using assms by (simp add: mutation_ignored keeps_def)
  next
    case ign: False
    show ?thesis
    proof (cases "jq_is [ev_target e] (watchChangesExceptions (heap w a))")
      case True
      from mutation_exception [OF assms a ign True] obtain w1 where
        "onFieldMutation w s oa e = Inr (w1, s\<lparr>isException := True\<rparr>, e)" "heap w1 = heap w"
        by blast
      then show ?thesis
        using assms live_heap [of w1 w "s\<lparr>isException := True\<rparr>"]
        by (simp add: keeps_def live_fields)
    next
      case False
      from mutation_not_exception [OF assms a(1) ign False] obtain w1 where
        "onFieldMutation w s oa e = Inr (w1, s\<lparr>isException := False, hasChanges := True\<rparr>, e)"
        "heap w1 = heap w"
        by blast
      then show ?thesis
        using assms
          live_heap [of w1 w "s\<lparr>isException := False, hasChanges := True\<rparr>"]
        by (simp add: keeps_def live_fields)
    qed
  qed
qed

lemma onSubmitIntent_keeps:
  assumes "live w s"
  shows "\<exists>w1. onSubmitIntent w s e =
                 Inr (w1, s, e\<lparr>immediatePropagationStopped := True\<rparr>) \<and>
              keeps (w, s) (w1, s)"
proof -
  from assms obtain a cb1 cb2 where
    a: "options s = Some a" "onSetAlert (heap w a) = Some cb1"
       "onUnsetAlert (heap w a) = Some cb2"
    by (rule liveD)
  let ?w1 = "w\<lparr>trace := trace w @ [(UnsetAlertHook, cb2)], onbeforeunload := None\<rparr>"
  have "live ?w1 s" using assms live_heap [of ?w1 w s] by simp
  then show ?thesis
    by (simp add: submit_plain [OF a(1,3)] keeps_def)
qed

lemma keeps_trans: "keeps c c1 \<Longrightarrow> keeps c1 c2 \<Longrightarrow> keeps c c2"
  by (simp add: keeps_def)

lemma run_handler_keeps:
  assumes "live w s"
  shows "\<exists>w1 s1 e1. run_handler w s e h = Inr (w1, s1, e1) \<and> keeps (w, s) (w1, s1)"
proof (cases h)
  case SubmitClick
  with onSubmitIntent_keeps [OF assms, of e] show ?thesis
    by (auto simp: run_handler_def)
next
  case (FieldMutation oa)
  with onFieldMutation_keeps [OF assms, of oa e] show ?thesis
    by (auto simp: run_handler_def)
qed

lemma run_queue_keeps:
  assumes "live w s"
  shows "\<exists>w1 s1 e1. run_queue w s e hs = Inr (w1, s1, e1) \<and> keeps (w, s) (w1, s1)"
  using assms
proof (induction hs arbitrary: w s e)
  case Nil
  then show ?case by (simp add: keeps_def)
next
  case (Cons h hs)
  show ?case
  proof (cases "immediatePropagationStopped e")
    case True
    then show ?thesis using Cons.prems by (simp add: keeps_def)
  next
    case False
    from run_handler_keeps [OF Cons.prems, of e h] obtain w1 s1 e1 where
      h: "run_handler w s e h = Inr (w1, s1, e1)" "keeps (w, s) (w1, s1)"
      by blast
    then have "live w1 s1" by (simp add: keeps_def)
    from Cons.IH [OF this] obtain w2 s2 e2 where
      "run_queue w1 s1 e1 hs = Inr (w2, s2, e2)" "keeps (w1, s1) (w2, s2)"
      by blast
    with h False show ?thesis
      by (auto intro: keeps_trans)
  qed
qed

lemma step_keeps:
  assumes "live (fst c) (snd c)" and "x \<noteq> SetDirty False"
  shows "\<exists>c1. step c x = Inr c1 \<and> keeps c c1"
proof (cases c)
  case (Pair w s)
  with assms(1) have l: "live w s" by simp
  show ?thesis
  proof (cases x)
    case (Deliver e)
    with run_queue_keeps [OF l, of e "handler_queue (listeners s) e"] Pair show ?thesis
      by (auto simp: dispatch_def drop_event_def)
  next
    case (Mutation oa e)
    with onFieldMutation_keeps [OF l, of oa e] Pair show ?thesis
      by (auto simp: drop_event_def)
  next
    case (SubmitIntent e)
    with onSubmitIntent_keeps [OF l, of e] Pair show ?thesis
      by (auto simp: drop_event_def)
  next
    case (SetDirty b)
    with assms(2) have b by simp
    from setDirty_plain [OF l, of True] obtain w1 where
      w1: "updateHasChanges w s True = Inr (w1, s\<lparr>hasChanges := True\<rparr>)" "heap w1 = heap w"
      by blast
    with \<open>b\<close> SetDirty Pair l live_heap [of w1 w "s\<lparr>hasChanges := True\<rparr>"] show ?thesis
      by (simp add: keeps_def live_fields)
  next
    case (Arm opts)
    from l obtain a where a: "options s = Some a" "full (heap w a)"
      by (auto simp: live_def split: option.splits)
    from setAlert_opts [OF a, of opts] obtain w1 where
      w1: "setAlert w s opts = Inr w1" "heap w1 = (heap w)(a := copy_arg opts (heap w a))"
      by blast
    have "live w1 s"
      using l w1(2) a(2) by (rule live_full_upd [OF _ _ full_copy_arg])
    with w1 Arm Pair show ?thesis
      by (simp add: keep_session_def keeps_def)
  qed
qed

lemma run_keeps:
  assumes "live (fst c) (snd c)" and "SetDirty False \<notin> set xs"
  shows "\<exists>c1. run c xs = Inr c1 \<and> keeps c c1"
  using assms
proof (induction xs arbitrary: c)
  case Nil
  then show ?case by (simp add: keeps_def)
next
  case (Cons x xs)
  then have "x \<noteq> SetDirty False" by auto
  from step_keeps [OF Cons.prems(1) this] obtain c1 where
    c1: "step c x = Inr c1" "keeps c c1"
    by blast
  then have "live (fst c1) (snd c1)" by (simp add: keeps_def)
  from Cons.IH [OF this] Cons.prems(2) obtain c2 where
    "run c1 xs = Inr c2" "keeps c1 c2"
    by auto
  with c1 show ?case
    by (auto intro: keeps_trans)
qed

lemma keeps_stays: "keeps c c1 \<Longrightarrow> stays c c1"
  by (simp add: keeps_def stays_def)

lemma stays_trans: "stays c c1 \<Longrightarrow> stays c1 c2 \<Longrightarrow> stays c c2"
  by (simp add: stays_def)

lemma step_stays:
  assumes "live (fst c) (snd c)"
  shows "\<exists>c1. step c x = Inr c1 \<and> stays c c1"
proof (cases "x = SetDirty False")
  case False
  from step_keeps [OF assms this] show ?thesis
    by (auto intro: keeps_stays)
next
  case True
  obtain w s where c: "c = (w, s)"
    by (cases c)
  with assms have l: "live w s" by simp
  from setDirty_plain [OF l, of False] obtain w1 where
    w1: "updateHasChanges w s False = Inr (w1, s\<lparr>hasChanges := False\<rparr>)" "heap w1 = heap w"
    by blast
  with True c l live_heap [of w1 w "s\<lparr>hasChanges := False\<rparr>"] show ?thesis
    by (simp add: stays_def live_fields)
qed

lemma run_stays:
  assumes "live (fst c) (snd c)"
  shows "\<exists>c1. run c xs = Inr c1 \<and> stays c c1"
  using assms
proof (induction xs arbitrary: c)
  case Nil
  then show ?case by (simp add: stays_def)
next
  case (Cons x xs)
  from step_stays [OF Cons.prems] obtain c1 where
    c1: "step c x = Inr c1" "stays c c1"
    by blast
  then have "live (fst c1) (snd c1)" by (simp add: stays_def)
  from Cons.IH [OF this] obtain c2 where
    "run c1 xs = Inr c2" "stays c1 c2"
    by blast
  with c1 show ?case
    by (auto intro: stays_trans)
qed

section \<open>The claims\<close>

lemma handler_queue_nil: "handler_queue [] e = []"
  by (induction "ev_ancestors e") (simp_all add: handler_queue_def)

lemma run_queue_stopped:
  "immediatePropagationStopped e \<Longrightarrow> run_queue w s e hs = Inr (w, s, e)"
  by (cases hs) simp_all

lemma watchChanges_listeners:
  assumes "scope_length jq \<noteq> 0"
  shows "listeners (snd (watchChanges w jq opts)) =
           [\<lparr>l_types = [Click],
              l_selector =
                watchChangesSubmits (heap (fst (watchChanges w jq opts)) defaults_addr),
              l_handler = SubmitClick\<rparr>,
            \<lparr>l_types = [Keyup, Change], l_selector = Some ''input, select, textarea'',
              l_handler = FieldMutation defaults_addr\<rparr>]"
  using assms
  by (simp add: watchChanges_def init_def jq_extend_def copy_arg_def Let_def)

lemma submit_queue:
  assumes "list_ex (\<lambda>cur. q \<in> cur) path"
  shows "\<exists>rest. concat (map (\<lambda>cur. if q \<in> cur then [SubmitClick] else []) path) =
                  SubmitClick # rest"
  using assms by (induction path) auto

lemma loaded_defaults: "heap (loaded doc) defaults_addr = defaults_init"
  by (simp add: loaded_def)

lemma form_nonempty: "scope_length form \<noteq> 0" "scope_length other_form \<noteq> 0"
  by (simp_all add: form_def other_form_def)

lemma fresh_live: "live (fst fresh) (snd fresh)"
  unfolding fresh_def
  by (rule watchChanges_live) (simp_all add: form_nonempty loaded_defaults full_defaults_init)

lemma fresh_config:
  "options (snd fresh) = Some defaults_addr"
  "heap (fst fresh) defaults_addr = defaults_init"
  by (simp_all add: fresh_def watchChanges_options form_nonempty loaded_defaults
        copy_arg_def form_def copy_keys_empty)

lemma watched_live: "live (fst watched) (snd watched)"
  unfolding watched_def
  by (rule watchChanges_live) (simp_all add: form_nonempty loaded_defaults full_defaults_init)

lemma watched_config:
  "options (snd watched) = Some defaults_addr"
  "heap (fst watched) defaults_addr = copy_keys custom defaults_init"
  by (simp_all add: watched_def watchChanges_options form_nonempty loaded_defaults
        copy_arg_def form_def copy_keys_empty)

lemma fresh_listeners:
  "listeners (snd fresh) =
     [\<lparr>l_types = [Click], l_selector = Some ''[type=submit], [data-submit]'',
        l_handler = SubmitClick\<rparr>,
      \<lparr>l_types = [Keyup, Change], l_selector = Some ''input, select, textarea'',
        l_handler = FieldMutation defaults_addr\<rparr>]"
  by (simp add: fresh_def watchChanges_def init_def jq_extend_def copy_arg_def Let_def
        form_def loaded_def copy_keys_empty defaults_init_def)

lemma watched_listeners:
  "listeners (snd watched) =
     [\<lparr>l_types = [Click], l_selector = Some ''[type=submit], [data-submit]'',
        l_handler = SubmitClick\<rparr>,
      \<lparr>l_types = [Keyup, Change], l_selector = Some ''input, select, textarea'',
        l_handler = FieldMutation defaults_addr\<rparr>]"
  by (simp add: watched_def watchChanges_def init_def jq_extend_def copy_arg_def Let_def
        form_def loaded_def copy_keys_empty defaults_init_def copy_keys_def custom_def
        over_def empty_obj_def)

lemma fresh_state:
  "hasChanges (snd fresh) = False" "isException (snd fresh) = False"
  "onbeforeunload (fst fresh) = None" "trace (fst fresh) = []"
  by (simp_all add: fresh_def watchChanges_options form_nonempty loaded_def)

text \<open>
  Claim C1, as amended. For a watcher constructed on a region that exists: after the
  mutation handler has run on a target that is not ignored, the guard is armed exactly
  when \<open>hasChanges && !isException\<close>. After \<open>updateHasChanges( state )\<close> (setDirty)
  the guard is armed exactly when \<open>state\<close> is true, whatever \<open>isException\<close> is, and
  \<open>isException\<close> is left as it was: \<open>updateStatusNote\<close> arms or disarms on
  \<open>hasChanges\<close> alone.
\<close>

theorem guard_after_update:
  assumes "live w s"
  shows "(\<not> ignored_target w oa e \<longrightarrow>
            (\<exists>w1 s1. onFieldMutation w s oa e = Inr (w1, s1, e) \<and>
               armed w1 = (hasChanges s1 \<and> \<not> isException s1))) \<and>
         (\<exists>w1 s1. updateHasChanges w s state = Inr (w1, s1) \<and>
               hasChanges s1 = state \<and> isException s1 = isException s \<and>
               armed w1 = state)"
proof (intro conjI impI)
  assume ign: "\<not> ignored_target w oa e"
  from assms obtain a cb1 cb2 where
    a: "options s = Some a" "onSetAlert (heap w a) = Some cb1"
       "onUnsetAlert (heap w a) = Some cb2"
    by (rule liveD)
  from ign have ign': "\<not> jq_is [ev_target e] (watchChangesIgnored (heap w oa))"
    by (simp add: ignored_target_def)
  show "\<exists>w1 s1. onFieldMutation w s oa e = Inr (w1, s1, e) \<and>
               armed w1 = (hasChanges s1 \<and> \<not> isException s1)"
  proof (cases "jq_is [ev_target e] (watchChangesExceptions (heap w a))")
    case True
    from mutation_exception [OF assms a ign' True] show ?thesis
      by (auto simp: armed_def)
  next
    case False
    from mutation_not_exception [OF assms a(1) ign' False] show ?thesis
      by (auto simp: armed_def)
  qed
next
  from setDirty_plain [OF assms, of state]
  show "\<exists>w1 s1. updateHasChanges w s state = Inr (w1, s1) \<and>
               hasChanges s1 = state \<and> isException s1 = isException s \<and>
               armed w1 = state"
    by (auto simp: armed_def)
qed

lemma fresh_name_input:
  "\<not> ignored_target (fst fresh) defaults_addr (keyup name_input)"
  "\<not> exception_target (fst fresh) (snd fresh) (keyup name_input)"
  by (simp_all add: ignored_target_def exception_target_def fresh_config defaults_init_def
        jq_is_def keyup_def name_input_def)

text \<open>C1, at the watcher \<open>fresh\<close> and a keyup in a plain text input.\<close>

theorem guard_after_update_witness:
  "live (fst fresh) (snd fresh) \<and>
   \<not> ignored_target (fst fresh) defaults_addr (keyup name_input) \<and>
   (\<exists>w1 s1. onFieldMutation (fst fresh) (snd fresh) defaults_addr (keyup name_input) =
               Inr (w1, s1, keyup name_input) \<and>
            armed w1 = (hasChanges s1 \<and> \<not> isException s1)) \<and>
   (\<exists>w1 s1. updateHasChanges (fst fresh) (snd fresh) True = Inr (w1, s1) \<and>
            hasChanges s1 = True \<and> isException s1 = isException (snd fresh) \<and>
            armed w1 = True)"
  using guard_after_update [OF fresh_live, of defaults_addr "keyup name_input" True]
    fresh_live fresh_name_input(1)
  by simp

lemmas model_defs =
  dispatch_def handler_queue_def matches_at_def bound_directly_def run_handler_def
  onFieldMutation_def onSubmitIntent_def
  checkForException_def status_then_guard_def updateStatusNote_def status_or_option_def
  hideSavedChangesMessage_def showSavedChangesMessage_def updateHasChanges_def
  setAlert_def unsetAlert_def jq_extend_def copy_arg_def jq_is_def jq_select_def
  jq_text_def addClass_def removeClass_def drop_event_def keep_session_def
  watchChanges_def init_def loaded_def defaults_addr_def defaults_init_def Let_def

lemmas page_defs =
  fresh_def watched_def inert_def form_def other_form_def missing_def custom_def
  other_def
  name_input_def submit_input_def ignored_submit_def submit_button_def label_span_def
  keyup_def click_def click_in_def doc0_def
  empty_obj_def copy_keys_def over_def

text \<open>
  Claim C1 as stated fails. A keyup in a field that matches the exceptions selector
  sets \<open>isException\<close>; \<open>updateHasChanges( true )\<close> then arms the guard, although
  \<open>hasChanges && !isException\<close> is false: the three observations are dirty, excepted
  and armed.
\<close>

theorem setDirty_arms_excepted:
  "map_sum id observe (run fresh [Deliver (keyup submit_input), SetDirty True]) =
     Inr (True, True, True)"
  by (simp add: model_defs page_defs observe_def armed_def)

text \<open>
  Claim C2. For a watcher constructed on a region that exists: a mutation on a target that
  is neither ignored nor an exception makes \<open>hasChanges\<close> true, and it is still true
  after any run of further events, handler calls and method calls that contains no
  \<open>updateHasChanges( false )\<close>; once \<open>hasChanges\<close> is true it stays true along any such
  run, whether the later targets are exceptions or not; and \<open>updateHasChanges( false )\<close>
  does clear it.
\<close>

theorem hasChanges_monotonic:
  assumes "live w s"
  shows "(\<not> ignored_target w oa e \<and> \<not> exception_target w s e \<and> SetDirty False \<notin> set xs \<longrightarrow>
            (\<exists>c1. run (w, s) (Mutation oa e # xs) = Inr c1 \<and> hasChanges (snd c1))) \<and>
         (hasChanges s \<and> SetDirty False \<notin> set xs \<longrightarrow>
            (\<exists>c1. run (w, s) xs = Inr c1 \<and> hasChanges (snd c1))) \<and>
         (\<exists>c1. step (w, s) (SetDirty False) = Inr c1 \<and> \<not> hasChanges (snd c1))"
proof (intro conjI impI)
  assume h: "\<not> ignored_target w oa e \<and> \<not> exception_target w s e \<and> SetDirty False \<notin> set xs"
  from assms obtain a where a: "options s = Some a"
    by (rule liveD)
  let ?s1 = "s\<lparr>isException := False, hasChanges := True\<rparr>"
  from h a mutation_not_exception [OF assms a, of e oa] obtain w1 where
    w1: "onFieldMutation w s oa e = Inr (w1, ?s1, e)" "heap w1 = heap w"
    by (auto simp: ignored_target_def exception_target_def)
  have "live w1 ?s1"
    using assms live_heap [OF w1(2), of ?s1] by (simp add: live_fields)
  with run_keeps [of "(w1, ?s1)" xs] h obtain c1 where
    "run (w1, ?s1) xs = Inr c1" "keeps (w1, ?s1) c1"
    by auto
  with w1(1) show "\<exists>c1. run (w, s) (Mutation oa e # xs) = Inr c1 \<and> hasChanges (snd c1)"
    by (simp add: drop_event_def keeps_def)
next
  assume "hasChanges s \<and> SetDirty False \<notin> set xs"
  with run_keeps [of "(w, s)" xs] assms
  show "\<exists>c1. run (w, s) xs = Inr c1 \<and> hasChanges (snd c1)"
    by (auto simp: keeps_def)
next
  from setDirty_plain [OF assms, of False]
  show "\<exists>c1. step (w, s) (SetDirty False) = Inr c1 \<and> \<not> hasChanges (snd c1)"
    by auto
qed

lemma dirty_run: "run watched [Deliver (keyup name_input)] = Inr dirty"
  by (simp add: dirty_def after_def model_defs page_defs)

lemma dirty_live: "live (fst dirty) (snd dirty)"
  using run_keeps [of watched "[Deliver (keyup name_input)]"] watched_live
  by (simp add: dirty_run keeps_def del: run.simps)

lemma dirty_state:
  "hasChanges (snd dirty)" "options (snd dirty) = Some defaults_addr"
  "heap (fst dirty) defaults_addr = copy_keys custom defaults_init"
  "armed (fst dirty)"
  by (simp_all add: dirty_def after_def armed_def model_defs page_defs)

lemma dirty_name_input:
  "\<not> ignored_target (fst dirty) defaults_addr (keyup name_input)"
  "\<not> exception_target (fst dirty) (snd dirty) (keyup name_input)"
  by (simp_all add: ignored_target_def exception_target_def dirty_state jq_is_def
        keyup_def name_input_def copy_keys_def custom_def empty_obj_def over_def
        defaults_init_def)

lemma dirty_submit_input:
  "\<not> ignored_target (fst dirty) defaults_addr (keyup submit_input)"
  "exception_target (fst dirty) (snd dirty) (keyup submit_input)"
  by (simp_all add: ignored_target_def exception_target_def dirty_state jq_is_def
        keyup_def submit_input_def copy_keys_def custom_def empty_obj_def over_def
        defaults_init_def)

text \<open>C2, at the watcher \<open>dirty\<close>.\<close>

theorem hasChanges_monotonic_witness:
  "live (fst dirty) (snd dirty) \<and>
   \<not> ignored_target (fst dirty) defaults_addr (keyup name_input) \<and>
   \<not> exception_target (fst dirty) (snd dirty) (keyup name_input) \<and>
   hasChanges (snd dirty) \<and>
   SetDirty False \<notin> set [Deliver (keyup submit_input), SetDirty True] \<and>
   (\<exists>c1. run dirty
           [Mutation defaults_addr (keyup name_input), Deliver (keyup submit_input),
            SetDirty True] = Inr c1 \<and>
         hasChanges (snd c1)) \<and>
   (\<exists>c1. run dirty [Deliver (keyup submit_input), SetDirty True] = Inr c1 \<and>
         hasChanges (snd c1)) \<and>
   (\<exists>c1. step dirty (SetDirty False) = Inr c1 \<and> \<not> hasChanges (snd c1))"
  using hasChanges_monotonic [OF dirty_live, of defaults_addr "keyup name_input"
      "[Deliver (keyup submit_input), SetDirty True]"]
    dirty_live dirty_name_input dirty_state(1)
  by (simp del: run.simps step.simps)

text \<open>
  Claim C3. Take a watcher constructed on a region that exists, the submit selector
  \<open>q\<close> that its constructor resolved and \<open>init\<close> bound the click handler to, and the
  state reached by any run, with any values of \<open>hasChanges\<close> and \<open>isException\<close>. A
  click delivered to the region whose target, or an ancestor of the target inside the
  region, matches \<open>q\<close> disarms the guard and calls \<open>onUnsetAlert\<close> once; it leaves the
  watcher (\<open>hasChanges\<close>, \<open>isException\<close> and all other fields), the status elements
  and the configuration as they were; and it stops the propagation of the event, so
  that no further handler runs for it.
\<close>

theorem submit_click_disarms:
  assumes "full (heap w0 defaults_addr)" and "scope_length jq \<noteq> 0"
    and "watchChangesSubmits (heap (fst (watchChanges w0 jq opts)) defaults_addr) = Some q"
    and "run (watchChanges w0 jq opts) xs = Inr (w, s0)"
    and "s = s0\<lparr>hasChanges := h, isException := x\<rparr>"
    and "ev_type e = Click" and "\<not> immediatePropagationStopped e"
    and "list_ex (\<lambda>cur. q \<in> cur) (ev_target e # ev_ancestors e)"
  shows "\<exists>w1 cb. dispatch w s e = Inr (w1, s, e\<lparr>immediatePropagationStopped := True\<rparr>) \<and>
           \<not> armed w1 \<and> nodes w1 = nodes w \<and> heap w1 = heap w \<and>
           trace w1 = trace w @ [(UnsetAlertHook, cb)] \<and>
           map_option onUnsetAlert (config_of (w, s)) = Some (Some cb) \<and>
           run_queue w1 s (e\<lparr>immediatePropagationStopped := True\<rparr>) hs =
             Inr (w1, s, e\<lparr>immediatePropagationStopped := True\<rparr>)"
proof -
  let ?c0 = "watchChanges w0 jq opts"
  have "live (fst ?c0) (snd ?c0)"
    using assms(2,1) by (rule watchChanges_live)
  from run_stays [OF this, of xs] assms(4) have st: "stays ?c0 (w, s0)"
    by simp
  then have l: "live w s"
    by (simp add: stays_def assms(5) live_fields)
  from st have "listeners s = listeners (snd ?c0)"
    by (simp add: stays_def assms(5))
  then have ls: "listeners s =
           [\<lparr>l_types = [Click], l_selector = Some q, l_handler = SubmitClick\<rparr>,
            \<lparr>l_types = [Keyup, Change], l_selector = Some ''input, select, textarea'',
              l_handler = FieldMutation defaults_addr\<rparr>]"
    by (simp add: watchChanges_listeners [OF assms(2)] assms(3))
  have m: "map l_handler (filter (\<lambda>l. matches_at l e cur) (listeners s)) =
             (if q \<in> cur then [SubmitClick] else [])" for cur
    by (simp add: ls matches_at_def assms(6) cong: if_cong)
  have "handler_queue (listeners s) e =
          concat (map (\<lambda>cur. if q \<in> cur then [SubmitClick] else [])
                    (ev_target e # ev_ancestors e))"
    unfolding handler_queue_def m
    by (simp add: ls bound_directly_def assms(6))
  with submit_queue [OF assms(8)] obtain rest where
    q: "handler_queue (listeners s) e = SubmitClick # rest"
    by auto
  from l obtain a cb1 cb2 where
    a: "options s = Some a" "onSetAlert (heap w a) = Some cb1"
       "onUnsetAlert (heap w a) = Some cb2"
    by (rule liveD)
  let ?w1 = "w\<lparr>trace := trace w @ [(UnsetAlertHook, cb2)], onbeforeunload := None\<rparr>"
  let ?e1 = "e\<lparr>immediatePropagationStopped := True\<rparr>"
  have "dispatch w s e = Inr (?w1, s, ?e1)"
    using assms(7)
    by (simp add: dispatch_def q run_handler_def submit_plain [OF a(1,3)] run_queue_stopped)
  moreover have "run_queue ?w1 s ?e1 hs = Inr (?w1, s, ?e1)"
    by (simp add: run_queue_stopped)
  moreover have "map_option onUnsetAlert (config_of (w, s)) = Some (Some cb2)"
    using a by (simp add: config_of_def)
  ultimately show ?thesis
    by (simp add: armed_def)
qed

lemma watched_submits:
  "watchChangesSubmits (heap (fst watched) defaults_addr) = Some ''[type=submit], [data-submit]''"
  by (simp add: watched_config copy_keys_def custom_def empty_obj_def over_def
        defaults_init_def)

lemma span_in_submit_button:
  "ev_type (click_in label_span [submit_button]) = Click"
  "\<not> immediatePropagationStopped (click_in label_span [submit_button])"
  "list_ex (\<lambda>cur. ''[type=submit], [data-submit]'' \<in> cur)
     (ev_target (click_in label_span [submit_button]) #
      ev_ancestors (click_in label_span [submit_button]))"
  by (simp_all add: click_in_def submit_button_def label_span_def)

text \<open>
  C3, at the watcher \<open>watched\<close> after a keyup in a text input, with both flags set,
  and a click on a span inside a submit button.
\<close>

theorem submit_click_disarms_witness:
  "full (heap (loaded doc0) defaults_addr) \<and> scope_length form \<noteq> 0 \<and>
   watchChangesSubmits (heap (fst watched) defaults_addr) =
     Some ''[type=submit], [data-submit]'' \<and>
   run watched [Deliver (keyup name_input)] = Inr (fst dirty, snd dirty) \<and>
   ev_type (click_in label_span [submit_button]) = Click \<and>
   \<not> immediatePropagationStopped (click_in label_span [submit_button]) \<and>
   list_ex (\<lambda>cur. ''[type=submit], [data-submit]'' \<in> cur)
     (ev_target (click_in label_span [submit_button]) #
      ev_ancestors (click_in label_span [submit_button])) \<and>
   (\<exists>w1 cb.
      dispatch (fst dirty) ((snd dirty)\<lparr>hasChanges := True, isException := True\<rparr>)
        (click_in label_span [submit_button]) =
        Inr (w1, (snd dirty)\<lparr>hasChanges := True, isException := True\<rparr>,
             (click_in label_span [submit_button])\<lparr>immediatePropagationStopped := True\<rparr>) \<and>
      \<not> armed w1 \<and> nodes w1 = nodes (fst dirty) \<and> heap w1 = heap (fst dirty) \<and>
      trace w1 = trace (fst dirty) @ [(UnsetAlertHook, cb)])"
proof -
  have f: "full (heap (loaded doc0) defaults_addr)"
    by (simp add: loaded_defaults full_defaults_init)
  have r: "run (watchChanges (loaded doc0) form (Some custom)) [Deliver (keyup name_input)] =
             Inr (fst dirty, snd dirty)"
    using dirty_run by (simp add: watched_def del: run.simps)
  have q: "watchChangesSubmits
             (heap (fst (watchChanges (loaded doc0) form (Some custom))) defaults_addr) =
             Some ''[type=submit], [data-submit]''"
    using watched_submits by (simp add: watched_def)
  from submit_click_disarms [OF f form_nonempty(1) q r refl span_in_submit_button,
      of True True "[]"]
  show ?thesis
    using f form_nonempty(1) watched_submits dirty_run span_in_submit_button
    by (auto simp del: run.simps)
qed

text \<open>
  Claim C4. On a target that matches the ignored selector the mutation handler returns
  at once: the page (guard, status elements, configuration, trace) and the watcher
  (\<open>hasChanges\<close>, \<open>isException\<close>) are unchanged, in any state.
\<close>

theorem ignored_target_inert:
  assumes "ignored_target w oa e"
  shows "onFieldMutation w s oa e = Inr (w, s, e)"
  using assms by (simp add: ignored_target_def mutation_ignored)

lemma dirty_ignored_submit:
  "ignored_target (fst dirty) defaults_addr (keyup ignored_submit)"
  "exception_target (fst dirty) (snd dirty) (keyup ignored_submit)"
  by (simp_all add: ignored_target_def exception_target_def dirty_state jq_is_def
        keyup_def ignored_submit_def copy_keys_def custom_def empty_obj_def over_def
        defaults_init_def)

text \<open>C4, at the watcher \<open>dirty\<close> and an ignored submit input.\<close>

theorem ignored_target_inert_witness:
  "ignored_target (fst dirty) defaults_addr (keyup ignored_submit) \<and>
   onFieldMutation (fst dirty) (snd dirty) defaults_addr (keyup ignored_submit) =
     Inr (fst dirty, snd dirty, keyup ignored_submit)"
  using ignored_target_inert [OF dirty_ignored_submit(1), of "snd dirty"]
    dirty_ignored_submit(1)
  by simp

text \<open>
  Claim C5 fails on the code. Construction on a selector that matches nothing leaves
  the page as it was and registers no listener, so events do nothing; but
  \<open>updateHasChanges\<close> and \<open>updateStatusNote\<close> on that watcher throw a
  \<open>TypeError\<close>, for \<open>this.options\<close> and \<open>this.$statusNote\<close> were never assigned.
\<close>

theorem inert_setDirty_throws:
  "fst inert = loaded doc0 \<and> listeners (snd inert) = [] \<and>
   step inert (Deliver (keyup name_input)) = Inr inert \<and>
   step inert (Deliver (click submit_input)) = Inr inert \<and>
   step inert (SetDirty True) = Inl TypeError \<and>
   step inert (SetDirty False) = Inl TypeError \<and>
   updateStatusNote (fst inert) (snd inert) None = Inl TypeError"
  by (simp add: inert_def missing_def watchChanges_def dispatch_def handler_queue_nil
        drop_event_def
        updateHasChanges_def updateStatusNote_def status_or_option_def)

lemma inert_dispatch:
  assumes "scope_length jq = 0"
  shows "fst (watchChanges w jq opts) = w"
    and "dispatch w (snd (watchChanges w jq opts)) e = Inr (w, snd (watchChanges w jq opts), e)"
  using assms by (simp_all add: watchChanges_def dispatch_def handler_queue_nil)

lemma first_construction_precedence:
  assumes "scope_length jq \<noteq> 0"
  shows "config_of (watchChanges (loaded doc) jq opts) =
           Some (copy_keys (scope_data jq) (copy_arg opts defaults_init))"
  using assms by (simp add: config_of_def watchChanges_options loaded_defaults)

text \<open>
  Claim C6 fails on the code at a second construction. \<open>$.extend( _defaults, ... )\<close>
  writes into \<open>_defaults\<close> itself, so after a first watcher was constructed with
  \<open>custom\<close>, a second one constructed with no options on a region whose data
  attributes give no alert message resolves the alert message to that of \<open>custom\<close>,
  not to the default.
\<close>

theorem second_construction_inherits_options:
  "map_option watchChangesAlert (config_of (watchChanges (fst watched) other_form None)) =
     Some (Some ''Custom warning message'') \<and>
   watchChangesAlert (scope_data other_form) = None \<and>
   watchChangesAlert defaults_init \<noteq> Some ''Custom warning message''"
  by (simp add: config_of_def watchChanges_options form_nonempty watched_config copy_arg_def
        other_form_def copy_keys_def custom_def empty_obj_def over_def defaults_init_def)

text \<open>
  Claim C8 fails on the code. The options of every watcher are the one object
  \<open>_defaults\<close>: the watcher \<open>fresh\<close> resolves the alert message to the default, and
  constructing another watcher with \<open>custom\<close> changes the alert message of \<open>fresh\<close>.
\<close>

theorem other_construction_changes_config:
  "map_option watchChangesAlert (config_of fresh) = Some (watchChangesAlert defaults_init) \<and>
   map_option watchChangesAlert
     (config_of (fst (watchChanges (fst fresh) other_form (Some custom)), snd fresh)) =
     Some (Some ''Custom warning message'') \<and>
   watchChangesAlert defaults_init \<noteq> Some ''Custom warning message''"
  by (simp add: config_of_def watchChanges_options form_nonempty fresh_config copy_arg_def
        other_form_def copy_keys_def custom_def empty_obj_def over_def defaults_init_def)

lemma excepted_run: "run fresh [Deliver (keyup submit_input)] = Inr excepted"
  by (simp add: excepted_def after_def model_defs page_defs)

text \<open>
  Claim C7 as stated fails. In the state reached by a keyup in an exception field,
  \<open>updateHasChanges( true )\<close> leaves the guard armed, where steps 3 and 4 of the
  mutation handler leave it disarmed.
\<close>

theorem setDirty_differs_from_steps:
  "run fresh [Deliver (keyup submit_input)] = Inr excepted \<and>
   map_sum id observe (step excepted (SetDirty True)) = Inr (True, True, True) \<and>
   map_sum id observe (setDirty_spec excepted True) = Inr (True, True, False)"
  by (simp add: excepted_def after_def setDirty_spec_def observe_def armed_def
        model_defs page_defs)

text \<open>
  Claim C7, as amended. For a watcher constructed on a region that exists,
  \<open>updateHasChanges( state )\<close> (setDirty) sets \<open>hasChanges\<close> to \<open>state\<close> and then
  runs the status update alone (step 3, without the test of step 4). When \<open>state\<close> is
  true every status element shows the status text with the class \<open>has-changes\<close>, the
  saved-message is hidden and the guard is armed; when it is false the class is removed,
  the saved-message is shown and the guard is disarmed.
\<close>

theorem setDirty_presentation:
  assumes "live w s"
  shows "\<exists>w1 s1. updateHasChanges w s state = Inr (w1, s1) \<and>
           hasChanges s1 = state \<and> isException s1 = isException s \<and>
           (if state then dirty_shown w1 s1 \<and> saved_hidden w1 s1 \<and> armed w1
            else dirty_cleared w1 s1 \<and> saved_shown w1 s1 \<and> \<not> armed w1) \<and>
           updateHasChanges w s state =
             keep_session (s\<lparr>hasChanges := state\<rparr>)
               (updateStatusNote w (s\<lparr>hasChanges := state\<rparr>) None)"
proof -
  from assms obtain a cb1 cb2 ns ms st where
    l: "options s = Some a" "onSetAlert (heap w a) = Some cb1"
       "onUnsetAlert (heap w a) = Some cb2" "statusNote s = Some ns" "savedChanges s = Some ms"
       "watchChangesStatus (heap w a) = Some st"
    by (rule liveD) blast
  let ?s1 = "s\<lparr>hasChanges := state\<rparr>"
  have o: "options ?s1 = Some a" "statusNote ?s1 = Some ns" "savedChanges ?s1 = Some ms"
    using l by simp_all
  have k: "updateHasChanges w s state = keep_session ?s1 (updateStatusNote w ?s1 None)"
    by (simp add: updateHasChanges_def keep_session_def Let_def)
  show ?thesis
  proof (cases state)
    case True
    then have h: "hasChanges ?s1" by simp
    let ?w1 = "(addClass (addClass (jq_text w ns (watchChangesStatus (heap w a))) ns
                  ''has-changes'') ms ''hidden'')
                \<lparr>trace := trace w @ [(SetAlertHook, cb1)],
                  onbeforeunload :=
                    (case onbeforeunload w of None \<Rightarrow> Some (Guard a) | Some h \<Rightarrow> Some h)\<rparr>"
    have u: "updateStatusNote w ?s1 None = Inr ?w1"
      by (rule updateStatusNote_dirty [OF o(1) l(2) o(2,3) h])
    have "dirty_shown ?w1 ?s1"
      using l by (simp add: dirty_shown_def config_of_def list_all_iff addClass_def jq_text_def)
    moreover have "saved_hidden ?w1 ?s1"
      using l by (simp add: saved_hidden_def list_all_iff addClass_def)
    moreover have "armed ?w1"
      by (simp add: armed_def split: option.splits)
    ultimately show ?thesis
      using True k u by (simp add: keep_session_def)
  next
    case False
    then have h: "\<not> hasChanges ?s1" by simp
    let ?w1 = "(removeClass (removeClass w ns ''has-changes'') ms ''hidden'')
                \<lparr>trace := trace w @ [(UnsetAlertHook, cb2)], onbeforeunload := None\<rparr>"
    have u: "updateStatusNote w ?s1 None = Inr ?w1"
      by (rule updateStatusNote_clean [OF o(1) l(3) o(2,3) h])
    have "dirty_cleared ?w1 ?s1"
      using l by (simp add: dirty_cleared_def list_all_iff removeClass_def)
    moreover have "saved_shown ?w1 ?s1"
      using l by (simp add: saved_shown_def list_all_iff removeClass_def)
    moreover have "\<not> armed ?w1"
      by (simp add: armed_def)
    ultimately show ?thesis
      using False k u by (simp add: keep_session_def)
  qed
qed

text \<open>C7, at the watcher \<open>dirty\<close> and \<open>updateHasChanges( false )\<close>.\<close>

theorem setDirty_presentation_witness:
  "live (fst dirty) (snd dirty) \<and>
   (\<exists>w1 s1. updateHasChanges (fst dirty) (snd dirty) False = Inr (w1, s1) \<and>
      hasChanges s1 = False \<and> isException s1 = isException (snd dirty) \<and>
      dirty_cleared w1 s1 \<and> saved_shown w1 s1 \<and> \<not> armed w1)"
  using setDirty_presentation [OF dirty_live, of False] dirty_live
  by auto

text \<open>
  Claim C9 as stated fails. With the guard armed, a further \<open>setAlert()\<close> calls the
  \<open>onSetAlert\<close> callback once more, which the caller observes.
\<close>

theorem setAlert_again_fires_callback:
  "armed (fst dirty) \<and>
   map_sum id (trace \<circ> fst) (step dirty (Arm None)) =
     Inr (trace (fst dirty) @ [(SetAlertHook, ''count arms'')])"
  by (simp add: dirty_def after_def armed_def model_defs page_defs)

text \<open>
  Claim C9, as amended. For a watcher constructed on a region that exists, when a handler
  is installed a further \<open>setAlert( opts )\<close> installs no handler and replaces none
  (\<open>window.onbeforeunload\<close> is unchanged) and leaves the status elements as they were.
  It still merges \<open>opts\<close> into the configuration object of the watcher (the keys that
  \<open>opts\<close> gives are overwritten, the others kept, and nothing changes without an
  argument), and it calls the \<open>onSetAlert\<close> callback of the resulting configuration
  once.
\<close>

theorem setAlert_when_armed:
  assumes "live w s" and "armed w"
  shows "\<exists>w1 cb a. setAlert w s opts = Inr w1 \<and>
           onbeforeunload w1 = onbeforeunload w \<and> nodes w1 = nodes w \<and>
           trace w1 = trace w @ [(SetAlertHook, cb)] \<and>
           options s = Some a \<and>
           heap w1 = (heap w)(a := copy_arg opts (heap w a)) \<and>
           map_option onSetAlert (config_of (w1, s)) = Some (Some cb) \<and>
           (opts = None \<longrightarrow> heap w1 = heap w)"
proof -
  from assms(1) obtain a where a: "options s = Some a" "full (heap w a)"
    by (rule liveD)
  from setAlert_opts [OF a, of opts] obtain w1 cb where
    w1: "setAlert w s opts = Inr w1" "heap w1 = (heap w)(a := copy_arg opts (heap w a))"
      "onbeforeunload w1 =
         (case onbeforeunload w of None \<Rightarrow> Some (Guard a) | Some h \<Rightarrow> Some h)"
      "nodes w1 = nodes w" "trace w1 = trace w @ [(SetAlertHook, cb)]"
      "onSetAlert (copy_arg opts (heap w a)) = Some cb"
    by blast
  from assms(2) w1(3) have "onbeforeunload w1 = onbeforeunload w"
    by (auto simp: armed_def)
  moreover have "opts = None \<longrightarrow> heap w1 = heap w"
    using w1(2) by (simp add: copy_arg_def)
  ultimately show ?thesis
    using w1 a(1) by (simp add: config_of_def)
qed

text \<open>
  C9, at the watcher \<open>dirty\<close> and the options \<open>other\<close>, which replace the alert
  message and the callback.
\<close>

theorem setAlert_when_armed_witness:
  "live (fst dirty) (snd dirty) \<and> armed (fst dirty) \<and>
   (\<exists>w1. setAlert (fst dirty) (snd dirty) (Some other) = Inr w1 \<and>
      onbeforeunload w1 = onbeforeunload (fst dirty) \<and> nodes w1 = nodes (fst dirty) \<and>
      trace w1 = trace (fst dirty) @ [(SetAlertHook, ''log arms'')] \<and>
      heap w1 =
        (heap (fst dirty))
          (defaults_addr := copy_keys other (heap (fst dirty) defaults_addr)) \<and>
      map_option watchChangesAlert (config_of (w1, snd dirty)) = Some (Some ''Leave?''))"
proof -
  from setAlert_when_armed [OF dirty_live dirty_state(4), of "Some other"]
  obtain w1 cb where
    w1: "setAlert (fst dirty) (snd dirty) (Some other) = Inr w1"
      "onbeforeunload w1 = onbeforeunload (fst dirty)" "nodes w1 = nodes (fst dirty)"
      "trace w1 = trace (fst dirty) @ [(SetAlertHook, cb)]"
      "heap w1 =
         (heap (fst dirty))
           (defaults_addr := copy_arg (Some other) (heap (fst dirty) defaults_addr))"
      "map_option onSetAlert (config_of (w1, snd dirty)) = Some (Some cb)"
    by (auto simp: dirty_state(2))
  from w1(5,6) have "cb = ''log arms''"
    by (simp add: config_of_def dirty_state copy_arg_def copy_keys_def other_def
          empty_obj_def over_def)
  moreover from w1(5) have
    "map_option watchChangesAlert (config_of (w1, snd dirty)) = Some (Some ''Leave?'')"
    by (simp add: config_of_def dirty_state copy_arg_def copy_keys_def other_def
          empty_obj_def over_def)
  ultimately show ?thesis
    using w1 dirty_live dirty_state(4) by (simp add: copy_arg_def)
qed

text \<open>
  Claim C10 as stated fails. A field may match both the exceptions selector and the
  ignored selector; a mutation on it, with \<open>hasChanges\<close> true, calls no callback and
  changes nothing.
\<close>

theorem ignored_exception_fires_nothing:
  "hasChanges (snd dirty) \<and>
   exception_target (fst dirty) (snd dirty) (keyup ignored_submit) \<and>
   step dirty (Mutation defaults_addr (keyup ignored_submit)) = Inr dirty \<and>
   step dirty (Deliver (keyup ignored_submit)) = Inr dirty"
proof -
  obtain w s where c: "dirty = (w, s)"
    by (cases dirty)
  have m: "onFieldMutation w s defaults_addr (keyup ignored_submit) =
          Inr (w, s, keyup ignored_submit)"
    using dirty_ignored_submit(1) by (simp add: c ignored_target_def mutation_ignored)
  have "listeners (snd dirty) = listeners (snd watched)"
    by (simp add: dirty_def after_def model_defs page_defs)
  then have ls: "listeners s = listeners (snd watched)"
    by (simp add: c)
  have d: "dispatch w s (keyup ignored_submit) = Inr (w, s, keyup ignored_submit)"
    using m
    by (simp add: dispatch_def ls watched_listeners handler_queue_def matches_at_def
          bound_directly_def run_handler_def keyup_def ignored_submit_def)
  have "step (w, s) (Mutation defaults_addr (keyup ignored_submit)) = Inr (w, s)"
    using m by (simp add: drop_event_def)
  moreover have "step (w, s) (Deliver (keyup ignored_submit)) = Inr (w, s)"
    using d by (simp add: drop_event_def)
  ultimately show ?thesis
    using dirty_state(1) dirty_ignored_submit(2) by (simp add: c)
qed

text \<open>
  Claim C10, as amended. For a watcher constructed on a region that exists, with
  \<open>hasChanges\<close> true, a mutation on a target that is not ignored and matches the
  exceptions selector calls \<open>onSetAlert\<close> (through the status update) and then
  \<open>onUnsetAlert\<close>, these two and in this order, and ends with the guard disarmed,
  \<open>hasChanges\<close> still true and \<open>isException\<close> true.
\<close>

theorem exception_mutation_callbacks:
  assumes "live w s" and "hasChanges s"
    and "\<not> ignored_target w oa e" and "exception_target w s e"
  shows "\<exists>w1 s1 cb1 cb2. onFieldMutation w s oa e = Inr (w1, s1, e) \<and>
           trace w1 = trace w @ [(SetAlertHook, cb1), (UnsetAlertHook, cb2)] \<and>
           map_option onSetAlert (config_of (w, s)) = Some (Some cb1) \<and>
           map_option onUnsetAlert (config_of (w, s)) = Some (Some cb2) \<and>
           \<not> armed w1 \<and> hasChanges s1 \<and> isException s1"
proof -
  from assms(1) obtain a cb1 cb2 where
    a: "options s = Some a" "onSetAlert (heap w a) = Some cb1"
       "onUnsetAlert (heap w a) = Some cb2"
    by (rule liveD)
  from assms(3) have ign: "\<not> jq_is [ev_target e] (watchChangesIgnored (heap w oa))"
    by (simp add: ignored_target_def)
  from assms(4) a(1) have ex: "jq_is [ev_target e] (watchChangesExceptions (heap w a))"
    by (simp add: exception_target_def)
  from mutation_exception [OF assms(1) a ign ex] assms(2) a show ?thesis
    by (auto simp: armed_def config_of_def)
qed

text \<open>C10, at the watcher \<open>dirty\<close> and a keyup in a submit input.\<close>

theorem exception_mutation_callbacks_witness:
  "live (fst dirty) (snd dirty) \<and> hasChanges (snd dirty) \<and>
   \<not> ignored_target (fst dirty) defaults_addr (keyup submit_input) \<and>
   exception_target (fst dirty) (snd dirty) (keyup submit_input) \<and>
   (\<exists>w1 s1 cb1 cb2.
      onFieldMutation (fst dirty) (snd dirty) defaults_addr (keyup submit_input) =
        Inr (w1, s1, keyup submit_input) \<and>
      trace w1 = trace (fst dirty) @ [(SetAlertHook, cb1), (UnsetAlertHook, cb2)] \<and>
      map_option onSetAlert (config_of dirty) = Some (Some cb1) \<and>
      map_option onUnsetAlert (config_of dirty) = Some (Some cb2) \<and>
      \<not> armed w1 \<and> hasChanges s1 \<and> isException s1)"
  using exception_mutation_callbacks [OF dirty_live dirty_state(1) dirty_submit_input]
    dirty_live dirty_state(1) dirty_submit_input
  by simp

end
